theory Spec2Isabelle
  imports Main
begin

section \<open>Data model\<close>

text \<open>
  Every \<^verbatim>\<open>throw new Error(...)\<close> of the sources is one constructor, named after the
  message it carries. \<open>TypeError\<close> is the error the JavaScript runtime raises when a
  property of \<^verbatim>\<open>undefined\<close> or \<^verbatim>\<open>null\<close> is read or written.
\<close>

datatype error =
    IndexOutOfRange   \<comment> \<open>'Index does not exist in handlers.'\<close>
  | HandlerNotFound   \<comment> \<open>'Handler does not exist in handlers.'\<close>
  | HandlerNull       \<comment> \<open>'Handler cannot be null or undefined.'\<close>
  | NewHandlerNull    \<comment> \<open>'New handler cannot be null or undefined.'\<close>
  | DuplicateHandler  \<comment> \<open>'handler is already part of the execution plan. ...'\<close>
  | PipelineEmpty     \<comment> \<open>'Pipeline is empty.'\<close>
  | ContextUndefined  \<comment> \<open>'The context parameter is undefined.'\<close>
  | TypeError

text \<open>Handlers are objects; a reference to one is its address in the object store.\<close>

type_synonym ref = nat

text \<open>
  \<^verbatim>\<open>ExecutionContext\<close>: \<^verbatim>\<open>_input\<close> is set by the constructor and has no setter,
  \<^verbatim>\<open>_output\<close> is not initialised by the constructor (it reads as \<^verbatim>\<open>undefined\<close>,
  here \<open>None\<close>). The fields are \<open>ctx_input\<close> and \<open>ctx_output\<close>.
\<close>

record ('i, 'o) ExecutionContext =
  ctx_input :: 'i
  ctx_output :: "'o option"

definition new_ExecutionContext :: "'i \<Rightarrow> ('i, 'o) ExecutionContext" where
  "new_ExecutionContext inp = \<lparr>ctx_input = inp, ctx_output = None\<rparr>"

text \<open>
  What a caller can pass where a context is expected: \<^verbatim>\<open>undefined\<close>, \<^verbatim>\<open>null\<close>, or a
  context object. The two absent values are kept apart because
  \<^verbatim>\<open>PipelineHandler.invoke\<close> compares with \<^verbatim>\<open>undefined\<close> only.
\<close>

datatype ('i, 'o) context_arg =
    Undefined
  | Null
  | Ctx "('i, 'o) ExecutionContext"

text \<open>
  \<^verbatim>\<open>PipelineHandler\<close>: the private field \<^verbatim>\<open>_next\<close> behind the accessor
  \<^verbatim>\<open>nextHandler\<close> (\<open>None\<close> is \<^verbatim>\<open>undefined\<close>). A subclass may override
  \<^verbatim>\<open>invoke\<close> and \<^verbatim>\<open>invokeAsync\<close>; the overrides of the repository all have the shape
  \<^verbatim>\<open>context.output = f(context.input); super.invoke(context)\<close>, so an override is
  recorded by its \<open>f\<close>, and \<open>None\<close> means the method is inherited.
\<close>

record ('i, 'o) PipelineHandler =
  nextHandler :: "ref option"
  invoke_override :: "('i \<Rightarrow> 'o) option"
  invokeAsync_override :: "('i \<Rightarrow> 'o) option"

definition new_PipelineHandler :: "ref option \<Rightarrow> ('i, 'o) PipelineHandler" where
  "new_PipelineHandler next = \<lparr>nextHandler = next, invoke_override = None, invokeAsync_override = None\<rparr>"

text \<open>
  The state the plan's methods work on: the plan's own array \<^verbatim>\<open>_handlers\<close> and the store
  holding every handler object (the array holds references into it).
\<close>

record ('i, 'o) plan_state =
  handlers :: "ref list"
  heap :: "ref \<Rightarrow> ('i, 'o) PipelineHandler"

definition new_ExecutionPlan :: "(ref \<Rightarrow> ('i, 'o) PipelineHandler) \<Rightarrow> ('i, 'o) plan_state" where
  "new_ExecutionPlan H = \<lparr>handlers = [], heap = H\<rparr>"

definition handlerCount :: "('i, 'o) plan_state \<Rightarrow> nat" where
  "handlerCount s = length (handlers s)"

section \<open>JavaScript array primitives used by the plan\<close>

text \<open>\<^verbatim>\<open>xs[i]\<close>: \<^verbatim>\<open>undefined\<close> (\<open>None\<close>) outside the array.\<close>

definition at :: "'a list \<Rightarrow> int \<Rightarrow> 'a option" where
  "at xs i = (if 0 \<le> i \<and> i < int (length xs) then Some (xs ! nat i) else None)"

text \<open>\<^verbatim>\<open>xs.indexOf(x)\<close>: the first position holding \<open>x\<close>, or \<open>-1\<close>.\<close>

fun indexOf_from :: "'a list \<Rightarrow> 'a \<Rightarrow> int \<Rightarrow> int" where
  "indexOf_from [] x k = - 1"
| "indexOf_from (y # ys) x k = (if y = x then k else indexOf_from ys x (k + 1))"

definition indexOf :: "'a list \<Rightarrow> 'a \<Rightarrow> int" where
  "indexOf xs x = indexOf_from xs x 0"

text \<open>
  A handler argument is \<open>None\<close> when the caller passes \<^verbatim>\<open>undefined\<close> or \<^verbatim>\<open>null\<close>
  (every check of the plan tests both together); the array holds objects only, so
  \<^verbatim>\<open>indexOf\<close> of an absent argument is \<open>-1\<close>.
\<close>

definition indexOf_arg :: "ref list \<Rightarrow> ref option \<Rightarrow> int" where
  "indexOf_arg xs a = (case a of None \<Rightarrow> - 1 | Some h \<Rightarrow> indexOf xs h)"

text \<open>\<^verbatim>\<open>splice\<close> clamps its start: a negative start counts from the end.\<close>

definition splice_start :: "nat \<Rightarrow> int \<Rightarrow> nat" where
  "splice_start n i = (if i < 0 then nat (max (int n + i) 0) else min (nat i) n)"

text \<open>\<^verbatim>\<open>xs.splice(i, 0, x)\<close>\<close>

definition splice_insert :: "'a list \<Rightarrow> int \<Rightarrow> 'a \<Rightarrow> 'a list" where
  "splice_insert xs i x = (let k = splice_start (length xs) i in take k xs @ [x] @ drop k xs)"

text \<open>\<^verbatim>\<open>xs.splice(i, 1)\<close>\<close>

definition splice_remove :: "'a list \<Rightarrow> int \<Rightarrow> 'a list" where
  "splice_remove xs i = (let k = splice_start (length xs) i in take k xs @ drop (Suc k) xs)"

section \<open>ExecutionPlan: structural operations\<close>

text \<open>
  Each method takes the state and returns its outcome (\<open>Inl\<close> the error thrown,
  \<open>Inr ()\<close> a normal return) together with the state it leaves behind. An index is an
  integer, of either sign. In \<^verbatim>\<open>insertHandlerAt\<close> the two assignments come in the order
  of the source: first \<^verbatim>\<open>this._handlers[index - 1].nextHandler = handler\<close> (writing a
  property of an \<^verbatim>\<open>undefined\<close> element would be a \<open>TypeError\<close>), then
  \<^verbatim>\<open>handler.nextHandler = this._handlers[index + 1]\<close>, both on the array as it is before
  the \<^verbatim>\<open>splice\<close>.
\<close>

type_synonym ('i, 'o) mutation = "('i, 'o) plan_state \<Rightarrow> (error + unit) \<times> ('i, 'o) plan_state"

text \<open>The setter \<^verbatim>\<open>h.nextHandler = n\<close>.\<close>

definition set_nextHandler :: "ref \<Rightarrow> ref option \<Rightarrow> ('i, 'o) plan_state \<Rightarrow> ('i, 'o) plan_state" where
  "set_nextHandler h n s = s\<lparr>heap := (heap s)(h := (heap s h)\<lparr>nextHandler := n\<rparr>)\<rparr>"

definition removeHandlerAt :: "int \<Rightarrow> ('i, 'o) mutation" where
  "removeHandlerAt index s =
     (if index < 0 \<or> index \<ge> int (length (handlers s)) then (Inl IndexOutOfRange, s)
      else (Inr (), s\<lparr>handlers := splice_remove (handlers s) index\<rparr>))"

definition removeHandler :: "ref option \<Rightarrow> ('i, 'o) mutation" where
  "removeHandler handler s =
     (let index = indexOf_arg (handlers s) handler in
      if index = - 1 then (Inl HandlerNotFound, s)
      else (Inr (), s\<lparr>handlers := splice_remove (handlers s) index\<rparr>))"

definition insertHandlerAt :: "int \<Rightarrow> ref option \<Rightarrow> ('i, 'o) mutation" where
  "insertHandlerAt index handler s =
     (if index < 0 \<or> index > int (length (handlers s)) then (Inl IndexOutOfRange, s)
      else
        (case handler of
           None \<Rightarrow> (Inl HandlerNull, s)
         | Some h \<Rightarrow>
             (if indexOf (handlers s) h \<noteq> - 1 then (Inl DuplicateHandler, s)
              else
                (case (if index > 0
                       then (case at (handlers s) (index - 1) of
                               None \<Rightarrow> Inl TypeError
                             | Some p \<Rightarrow> Inr (set_nextHandler p (Some h) s))
                       else Inr s) of
                   Inl e \<Rightarrow> (Inl e, s)
                 | Inr s1 \<Rightarrow>
                     (let s2 = (if index < int (length (handlers s1))
                                then set_nextHandler h (at (handlers s1) (index + 1)) s1
                                else s1)
                      in (Inr (), s2\<lparr>handlers := splice_insert (handlers s2) index h\<rparr>))))))"

definition appendHandler :: "ref option \<Rightarrow> ('i, 'o) mutation" where
  "appendHandler handler s =
     (case handler of
        None \<Rightarrow> (Inl HandlerNull, s)
      | Some h \<Rightarrow> insertHandlerAt (int (length (handlers s))) handler s)"

definition prependHandler :: "ref option \<Rightarrow> ('i, 'o) mutation" where
  "prependHandler handler s =
     (case handler of
        None \<Rightarrow> (Inl HandlerNull, s)
      | Some h \<Rightarrow> insertHandlerAt 0 handler s)"

definition addHandlerAfter :: "ref option \<Rightarrow> ref option \<Rightarrow> ('i, 'o) mutation" where
  "addHandlerAfter handler newHandler s =
     (case handler of
        None \<Rightarrow> (Inl HandlerNull, s)
      | Some e \<Rightarrow>
          (case newHandler of
             None \<Rightarrow> (Inl NewHandlerNull, s)
           | Some n \<Rightarrow>
               let index = indexOf (handlers s) e in
               if index = - 1 then (Inl HandlerNotFound, s)
               else insertHandlerAt (index + 1) newHandler s))"

definition addHandlerBefore :: "ref option \<Rightarrow> ref option \<Rightarrow> ('i, 'o) mutation" where
  "addHandlerBefore handler newHandler s =
     (case handler of
        None \<Rightarrow> (Inl HandlerNull, s)
      | Some e \<Rightarrow>
          (case newHandler of
             None \<Rightarrow> (Inl NewHandlerNull, s)
           | Some n \<Rightarrow>
               let index = indexOf (handlers s) e in
               if index = - 1 then (Inl HandlerNotFound, s)
               else insertHandlerAt index newHandler s))"

definition clearHandlers :: "('i, 'o) mutation" where
  "clearHandlers s = (Inr (), s\<lparr>handlers := []\<rparr>)"

section \<open>PipelineHandler: invocation\<close>

text \<open>
  An invocation returns what it threw or that it returned, the context it was given in the
  state it left it, and the log of the handlers whose \<^verbatim>\<open>invoke\<close> was entered, in
  order (what the spies of the test suite observe). A chain of \<^verbatim>\<open>nextHandler\<close>
  references may be cyclic, so an invocation need not return: that is \<open>None\<close>.
\<close>

type_synonym ('i, 'o) run = "((error + unit) \<times> ('i, 'o) context_arg \<times> ref list) option"

text \<open>The test \<^verbatim>\<open>context === undefined\<close>: \<^verbatim>\<open>null\<close> does not pass it.\<close>

definition is_undefined :: "('i, 'o) context_arg \<Rightarrow> bool" where
  "is_undefined context = (case context of Undefined \<Rightarrow> True | _ \<Rightarrow> False)"

text \<open>
  The statement an overriding subclass runs before its \<^verbatim>\<open>super\<close> call,
  \<^verbatim>\<open>context.output = f(context.input)\<close>: reading \<^verbatim>\<open>context.input\<close> of an absent
  context is a \<open>TypeError\<close>. A handler that inherits the method runs nothing.
\<close>

definition override_body ::
  "('i \<Rightarrow> 'o) option \<Rightarrow> ('i, 'o) context_arg \<Rightarrow> error + ('i, 'o) context_arg" where
  "override_body ov context =
     (case ov of
        None \<Rightarrow> Inr context
      | Some f \<Rightarrow>
          (case context of
             Ctx c \<Rightarrow> Inr (Ctx (c\<lparr>ctx_output := Some (f (ctx_input c))\<rparr>))
           | _ \<Rightarrow> Inl TypeError))"

text \<open>
  \<^verbatim>\<open>PipelineHandler.invoke\<close>, the method of the base class, running on the object
  \<open>this\<close>: the check of the context, then \<^verbatim>\<open>this._next?.invoke(context)\<close>. That call
  is dispatched on the next handler \<open>n\<close>: it enters \<open>n\<close>'s \<^verbatim>\<open>invoke\<close> (logged), runs
  the body of \<open>n\<close>'s override if it has one, and reaches the base method on \<open>n\<close>.
\<close>

partial_function (option) PipelineHandler_invoke ::
  "(ref \<Rightarrow> ('i, 'o) PipelineHandler) \<Rightarrow> ref \<Rightarrow> ('i, 'o) context_arg \<Rightarrow> ref list \<Rightarrow> ('i, 'o) run"
where
  "PipelineHandler_invoke H this context log =
     (if is_undefined context then Some (Inl ContextUndefined, context, log)
      else case nextHandler (H this) of
             None \<Rightarrow> Some (Inr (), context, log)
           | Some n \<Rightarrow>
               (case override_body (invoke_override (H n)) context of
                  Inl e \<Rightarrow> Some (Inl e, context, log @ [n])
                | Inr c \<Rightarrow> PipelineHandler_invoke H n c (log @ [n])))"

text \<open>The call \<^verbatim>\<open>h.invoke(context)\<close> as a caller makes it, dispatched on \<open>h\<close>.\<close>

definition invoke ::
  "(ref \<Rightarrow> ('i, 'o) PipelineHandler) \<Rightarrow> ref \<Rightarrow> ('i, 'o) context_arg \<Rightarrow> ref list \<Rightarrow> ('i, 'o) run"
where
  "invoke H h context log =
     (case override_body (invoke_override (H h)) context of
        Inl e \<Rightarrow> Some (Inl e, context, log @ [h])
      | Inr c \<Rightarrow> PipelineHandler_invoke H h c (log @ [h]))"

text \<open>
  \<^verbatim>\<open>PipelineHandler.invokeAsync\<close>: one flow of control, each \<^verbatim>\<open>await\<close> resumed when
  the awaited call has settled, so the asynchronous path runs the same steps in the same
  order; a rejected promise is the error.
\<close>

partial_function (option) PipelineHandler_invokeAsync ::
  "(ref \<Rightarrow> ('i, 'o) PipelineHandler) \<Rightarrow> ref \<Rightarrow> ('i, 'o) context_arg \<Rightarrow> ref list \<Rightarrow> ('i, 'o) run"
where
  "PipelineHandler_invokeAsync H this context log =
     (if is_undefined context then Some (Inl ContextUndefined, context, log)
      else case nextHandler (H this) of
             None \<Rightarrow> Some (Inr (), context, log)
           | Some n \<Rightarrow>
               (case override_body (invokeAsync_override (H n)) context of
                  Inl e \<Rightarrow> Some (Inl e, context, log @ [n])
                | Inr c \<Rightarrow> PipelineHandler_invokeAsync H n c (log @ [n])))"

definition invokeAsync ::
  "(ref \<Rightarrow> ('i, 'o) PipelineHandler) \<Rightarrow> ref \<Rightarrow> ('i, 'o) context_arg \<Rightarrow> ref list \<Rightarrow> ('i, 'o) run"
where
  "invokeAsync H h context log =
     (case override_body (invokeAsync_override (H h)) context of
        Inl e \<Rightarrow> Some (Inl e, context, log @ [h])
      | Inr c \<Rightarrow> PipelineHandler_invokeAsync H h c (log @ [h]))"

section \<open>ExecutionPlan: execution\<close>

text \<open>
  \<^verbatim>\<open>return context.output\<close> after the call: the value read from the context the
  invocation left behind.
\<close>

definition read_output ::
  "(error + unit) \<times> ('i, 'o) context_arg \<times> ref list \<Rightarrow> (error + 'o option) \<times> ref list" where
  "read_output r =
     (case r of
        (Inl e, context, log) \<Rightarrow> (Inl e, log)
      | (Inr u, context, log) \<Rightarrow>
          (case context of
             Ctx c \<Rightarrow> (Inr (ctx_output c), log)
           | _ \<Rightarrow> (Inl TypeError, log)))"

definition execute :: "('i, 'o) plan_state \<Rightarrow> 'i \<Rightarrow> ((error + 'o option) \<times> ref list) option" where
  "execute s inp =
     (if length (handlers s) = 0 then Some (Inl PipelineEmpty, [])
      else
        let context = Ctx (new_ExecutionContext inp) in
        map_option read_output (invoke (heap s) (handlers s ! 0) context []))"

definition executeAsync :: "('i, 'o) plan_state \<Rightarrow> 'i \<Rightarrow> ((error + 'o option) \<times> ref list) option" where
  "executeAsync s inp =
     (if length (handlers s) = 0 then Some (Inl PipelineEmpty, [])
      else
        let context = Ctx (new_ExecutionContext inp) in
        map_option read_output (invokeAsync (heap s) (handlers s ! 0) context []))"

section \<open>Chains and the handlers of the test suite\<close>

text \<open>
  \<open>is_chain H h hs\<close>: following \<^verbatim>\<open>nextHandler\<close> from \<open>h\<close> visits exactly \<open>hs\<close> and
  ends at a handler without a next one.
\<close>

fun is_chain :: "(ref \<Rightarrow> ('i, 'o) PipelineHandler) \<Rightarrow> ref \<Rightarrow> ref list \<Rightarrow> bool" where
  "is_chain H h [] = False"
| "is_chain H h [x] = (x = h \<and> nextHandler (H h) = None)"
| "is_chain H h (x # y # ys) = (x = h \<and> nextHandler (H h) = Some y \<and> is_chain H y (y # ys))"

text \<open>
  The subclasses of the test \<^verbatim>\<open>#execute\<close>: \<^verbatim>\<open>TestHandler\<close> sets
  \<^verbatim>\<open>context.output = context.input + '!'\<close>, \<^verbatim>\<open>TestHandler2\<close> the same with
  \<^verbatim>\<open>'?'\<close>; both then call \<^verbatim>\<open>super.invoke(context)\<close>. Each is constructed without
  a next handler.
\<close>

definition new_TestHandler :: "(string, string) PipelineHandler" where
  "new_TestHandler =
     \<lparr>nextHandler = None, invoke_override = Some (\<lambda>x. x @ ''!''), invokeAsync_override = None\<rparr>"

definition new_TestHandler2 :: "(string, string) PipelineHandler" where
  "new_TestHandler2 =
     \<lparr>nextHandler = None, invoke_override = Some (\<lambda>x. x @ ''?''), invokeAsync_override = None\<rparr>"

text \<open>A store of freshly constructed handlers of the base class.\<close>

definition fresh_heap :: "ref \<Rightarrow> (string, string) PipelineHandler" where
  "fresh_heap = (\<lambda>r. new_PipelineHandler None)"

text \<open>The store of the test: object 0 is a \<^verbatim>\<open>TestHandler\<close>, object 1 a \<^verbatim>\<open>TestHandler2\<close>.\<close>

definition test_heap :: "ref \<Rightarrow> (string, string) PipelineHandler" where
  "test_heap = fresh_heap(0 := new_TestHandler, 1 := new_TestHandler2)"

text \<open>
  The plan of the tests: a new plan, then \<^verbatim>\<open>appendHandler\<close> of object 0 and of
  object 1; and the plan after the first of the two calls.
\<close>

definition appended_plan :: "(ref \<Rightarrow> ('i, 'o) PipelineHandler) \<Rightarrow> ('i, 'o) plan_state" where
  "appended_plan H = snd (appendHandler (Some 1) (snd (appendHandler (Some 0) (new_ExecutionPlan H))))"

definition single_plan :: "(string, string) plan_state" where
  "single_plan = snd (appendHandler (Some 0) (new_ExecutionPlan fresh_heap))"

text \<open>A new plan, then \<^verbatim>\<open>appendHandler\<close> of object \<open>A\<close> and of object \<open>B\<close>.\<close>

definition two_appended ::
  "ref \<Rightarrow> ref \<Rightarrow> (ref \<Rightarrow> ('i, 'o) PipelineHandler) \<Rightarrow> ('i, 'o) plan_state" where
  "two_appended A B H = snd (appendHandler (Some B) (snd (appendHandler (Some A) (new_ExecutionPlan H))))"

text \<open>
  Two more ways to reach a plan holding object 0 then object 1. In the first a third
  handler, object 2, another \<^verbatim>\<open>TestHandler\<close>, is appended and then removed with
  \<^verbatim>\<open>removeHandler\<close>. In the second object 1 is appended and object 0 is then put in
  front of it with \<^verbatim>\<open>prependHandler\<close>.
\<close>

definition stale_heap :: "ref \<Rightarrow> (string, string) PipelineHandler" where
  "stale_heap = test_heap(2 := new_TestHandler)"

definition stale_plan :: "(string, string) plan_state" where
  "stale_plan = snd (removeHandler (Some 2) (snd (appendHandler (Some 2) (appended_plan stale_heap))))"

definition prepended_plan :: "(string, string) plan_state" where
  "prepended_plan = snd (prependHandler (Some 0) (snd (appendHandler (Some 1) (new_ExecutionPlan test_heap))))"

section \<open>Facts about the array primitives\<close>

lemma indexOf_from_notin: "x \<notin> set xs \<Longrightarrow> indexOf_from xs x k = - 1"
  by (induction xs arbitrary: k) auto

lemma indexOf_from_in:
  "x \<in> set xs \<Longrightarrow> k \<le> indexOf_from xs x k \<and> indexOf_from xs x k < k + int (length xs)
     \<and> xs ! nat (indexOf_from xs x k - k) = x"
proof (induction xs arbitrary: k)
  case Nil
  then show ?case by simp
next
  case (Cons y ys)
  show ?case
  proof (cases "y = x")
    case True
    then show ?thesis by simp
  next
    case False
    with Cons.prems have mem: "x \<in> set ys" by simp
    from Cons.IH [OF mem, of "k + 1"]
    have ih: "k + 1 \<le> indexOf_from ys x (k + 1)"
      "indexOf_from ys x (k + 1) < k + 1 + int (length ys)"
      "ys ! nat (indexOf_from ys x (k + 1) - (k + 1)) = x"
      by simp_all
    have "nat (indexOf_from ys x (k + 1) - k) = Suc (nat (indexOf_from ys x (k + 1) - (k + 1)))"
      using ih(1) by simp
    with ih False show ?thesis by simp
  qed
qed

lemma indexOf_member: "indexOf xs x \<noteq> - 1 \<longleftrightarrow> x \<in> set xs"
proof
  assume "indexOf xs x \<noteq> - 1"
  then show "x \<in> set xs"
    using indexOf_from_notin [of x xs 0] by (auto simp: indexOf_def)
next
  assume "x \<in> set xs"
  from indexOf_from_in [OF this, of 0] show "indexOf xs x \<noteq> - 1"
    by (simp add: indexOf_def)
qed

lemma indexOf_range:
  "x \<in> set xs \<Longrightarrow> 0 \<le> indexOf xs x \<and> indexOf xs x < int (length xs) \<and> xs ! nat (indexOf xs x) = x"
  using indexOf_from_in [of x xs 0] by (simp add: indexOf_def)

section \<open>Append and prepend are insertions\<close>

text \<open>
  C4. For every plan state and every handler argument (an absent one included),
  \<^verbatim>\<open>appendHandler(h)\<close> has the outcome and leaves the state of
  \<^verbatim>\<open>insertHandlerAt(handlerCount, h)\<close>, and \<^verbatim>\<open>prependHandler(h)\<close> those of
  \<^verbatim>\<open>insertHandlerAt(0, h)\<close>.
\<close>

theorem append_prepend_are_insertions:
  "appendHandler h s = insertHandlerAt (int (handlerCount s)) h s
   \<and> prependHandler h s = insertHandlerAt 0 h s"
  by (cases h) (simp_all add: appendHandler_def prependHandler_def insertHandlerAt_def handlerCount_def)

section \<open>Invocation along a chain\<close>

lemmas plan_defs = appendHandler_def prependHandler_def insertHandlerAt_def new_ExecutionPlan_def
  indexOf_def at_def splice_insert_def splice_start_def set_nextHandler_def fresh_heap_def
  new_PipelineHandler_def test_heap_def new_TestHandler_def new_TestHandler2_def appended_plan_def single_plan_def

text \<open>
  The base method in the shape of the source: the check, then the dispatched call
  \<^verbatim>\<open>this._next?.invoke(context)\<close>.
\<close>

lemma PipelineHandler_invoke_unfold:
  "PipelineHandler_invoke H this context log =
     (if is_undefined context then Some (Inl ContextUndefined, context, log)
      else case nextHandler (H this) of
             None \<Rightarrow> Some (Inr (), context, log)
           | Some n \<Rightarrow> invoke H n context log)"
  by (subst PipelineHandler_invoke.simps) (simp add: invoke_def split: option.splits)

lemma PipelineHandler_invokeAsync_unfold:
  "PipelineHandler_invokeAsync H this context log =
     (if is_undefined context then Some (Inl ContextUndefined, context, log)
      else case nextHandler (H this) of
             None \<Rightarrow> Some (Inr (), context, log)
           | Some n \<Rightarrow> invokeAsync H n context log)"
  by (subst PipelineHandler_invokeAsync.simps) (simp add: invokeAsync_def split: option.splits)

lemma override_body_Ctx: "\<exists>c'. override_body ov (Ctx c) = Inr (Ctx c')"
  by (cases ov) (simp_all add: override_body_def)

lemma is_undefined_Ctx: "\<not> is_undefined (Ctx c)"
  by (simp add: is_undefined_def)

lemma base_invoke_chain:
  "is_chain H h hs \<Longrightarrow> \<exists>c'. PipelineHandler_invoke H h (Ctx c) log = Some (Inr (), Ctx c', log @ tl hs)"
proof (induction H h hs arbitrary: c log rule: is_chain.induct)
  case (1 H h)
  then show ?case by simp
next
  case (2 H h x)
  then show ?case
    by (subst PipelineHandler_invoke.simps) (simp add: is_undefined_Ctx)
next
  case (3 H h x y ys)
  from "3.prems" have nxt: "nextHandler (H h) = Some y" and rest: "is_chain H y (y # ys)"
    by simp_all
  obtain c1 where ov: "override_body (invoke_override (H y)) (Ctx c) = Inr (Ctx c1)"
    using override_body_Ctx by blast
  from "3.IH" [OF rest, of c1 "log @ [y]"]
  obtain c' where "PipelineHandler_invoke H y (Ctx c1) (log @ [y]) = Some (Inr (), Ctx c', log @ y # ys)"
    by auto
  with nxt ov show ?case
    by (subst PipelineHandler_invoke.simps) (simp add: is_undefined_Ctx)
qed

lemma base_invokeAsync_chain:
  "is_chain H h hs \<Longrightarrow> \<exists>c'. PipelineHandler_invokeAsync H h (Ctx c) log = Some (Inr (), Ctx c', log @ tl hs)"
proof (induction H h hs arbitrary: c log rule: is_chain.induct)
  case (1 H h)
  then show ?case by simp
next
  case (2 H h x)
  then show ?case
    by (subst PipelineHandler_invokeAsync.simps) (simp add: is_undefined_Ctx)
next
  case (3 H h x y ys)
  from "3.prems" have nxt: "nextHandler (H h) = Some y" and rest: "is_chain H y (y # ys)"
    by simp_all
  obtain c1 where ov: "override_body (invokeAsync_override (H y)) (Ctx c) = Inr (Ctx c1)"
    using override_body_Ctx by blast
  from "3.IH" [OF rest, of c1 "log @ [y]"]
  obtain c' where "PipelineHandler_invokeAsync H y (Ctx c1) (log @ [y]) = Some (Inr (), Ctx c', log @ y # ys)"
    by auto
  with nxt ov show ?case
    by (subst PipelineHandler_invokeAsync.simps) (simp add: is_undefined_Ctx)
qed

lemma is_chain_hd: "is_chain H h hs \<Longrightarrow> hs = h # tl hs"
  by (induction H h hs rule: is_chain.induct) simp_all

lemma is_chain_unique: "is_chain H h hs \<Longrightarrow> is_chain H h hs' \<Longrightarrow> hs = hs'"
proof (induction H h hs arbitrary: hs' rule: is_chain.induct)
  case (1 H h)
  then show ?case by simp
next
  case (2 H h x)
  then show ?case by (cases "(H, h, hs')" rule: is_chain.cases) auto
next
  case (3 H h x y ys)
  from "3.prems"(2) "3.prems"(1) obtain zs where hs': "hs' = h # y # zs" and rest: "is_chain H y (y # zs)"
    by (cases "(H, h, hs')" rule: is_chain.cases) auto
  from "3.prems"(1) have "is_chain H y (y # ys)" by simp
  from "3.IH" [OF this rest] hs' "3.prems"(1) show ?case by simp
qed

lemma is_chain_suffix:
  "is_chain H h hs \<Longrightarrow> x \<in> set hs \<Longrightarrow> \<exists>suf. is_chain H x suf \<and> length suf \<le> length hs"
proof (induction H h hs rule: is_chain.induct)
  case (1 H h)
  then show ?case by simp
next
  case (2 H h y)
  then show ?case by (intro exI [of _ "[y]"]) auto
next
  case (3 H h a y ys)
  show ?case
  proof (cases "x = a")
    case True
    with "3.prems" show ?thesis by (intro exI [of _ "a # y # ys"]) auto
  next
    case False
    with "3.prems" have "x \<in> set (y # ys)" and "is_chain H y (y # ys)" by auto
    from "3.IH" [OF this(2) this(1)] show ?thesis by auto
  qed
qed

lemma is_chain_distinct: "is_chain H h hs \<Longrightarrow> distinct hs"
proof (induction H h hs rule: is_chain.induct)
  case (1 H h)
  then show ?case by simp
next
  case (2 H h x)
  then show ?case by simp
next
  case (3 H h x y ys)
  from "3.prems" have xh: "x = h" and rest: "is_chain H y (y # ys)" by simp_all
  have "h \<notin> set (y # ys)"
  proof
    assume "h \<in> set (y # ys)"
    from is_chain_suffix [OF rest this] obtain suf
      where suf: "is_chain H h suf" and len: "length suf \<le> length (y # ys)" by blast
    from is_chain_unique [OF suf] "3.prems" xh have "suf = h # y # ys" by blast
    with len show False by simp
  qed
  with "3.IH" [OF rest] xh show ?case by simp
qed

text \<open>
  C10. For every handler whose chain of next references is finite and acyclic (following
  \<^verbatim>\<open>nextHandler\<close> from it visits \<open>hs\<close> and reaches a handler with no next one),
  \<^verbatim>\<open>invoke\<close> and \<^verbatim>\<open>invokeAsync\<close> called with a context object return, having
  entered the handlers of the chain in chain order, each exactly once.
\<close>

theorem invoke_chain:
  assumes "is_chain H h hs"
  shows "(\<exists>c'. invoke H h (Ctx c) log = Some (Inr (), Ctx c', log @ hs))
       \<and> (\<exists>c'. invokeAsync H h (Ctx c) log = Some (Inr (), Ctx c', log @ hs))
       \<and> distinct hs"
proof -
  from assms have hs: "hs = h # tl hs" by (rule is_chain_hd)
  obtain c1 where ov: "override_body (invoke_override (H h)) (Ctx c) = Inr (Ctx c1)"
    using override_body_Ctx by blast
  obtain c2 where ova: "override_body (invokeAsync_override (H h)) (Ctx c) = Inr (Ctx c2)"
    using override_body_Ctx by blast
  from base_invoke_chain [OF assms, of c1 "log @ [h]"] ov hs
  have sync: "\<exists>c'. invoke H h (Ctx c) log = Some (Inr (), Ctx c', log @ hs)"
    by (simp add: invoke_def)
  from base_invokeAsync_chain [OF assms, of c2 "log @ [h]"] ova hs
  have async: "\<exists>c'. invokeAsync H h (Ctx c) log = Some (Inr (), Ctx c', log @ hs)"
    by (simp add: invokeAsync_def)
  from sync async is_chain_distinct [OF assms] show ?thesis by blast
qed

theorem invoke_chain_witness:
  "is_chain (heap (appended_plan test_heap)) 0 [0, 1]
   \<and> (\<exists>c'. invoke (heap (appended_plan test_heap)) 0 (Ctx (new_ExecutionContext ''Hello'')) []
          = Some (Inr (), Ctx c', [0, 1]))
   \<and> (\<exists>c'. invokeAsync (heap (appended_plan test_heap)) 0 (Ctx (new_ExecutionContext ''Hello'')) []
          = Some (Inr (), Ctx c', [0, 1]))"
  using invoke_chain [of "heap (appended_plan test_heap)" 0 "[0, 1]" "new_ExecutionContext ''Hello''" "[]"]
  by (simp add: plan_defs)


section \<open>Execution\<close>

text \<open>
  A plan can hold exactly the handlers A then B without being linked A to B to nothing.
  After appending objects 0, 1 and 2 and removing object 2, the plan holds 0 then 1, object
  1 still forwards to object 2, and \<^verbatim>\<open>execute("Hello")\<close> returns \<^verbatim>\<open>"Hello!"\<close>
  after entering a third handler. After appending object 1 and prepending object 0, the plan
  holds 0 then 1, and \<^verbatim>\<open>execute("Hello")\<close> returns \<^verbatim>\<open>"Hello!"\<close> without entering
  object 1.
\<close>

theorem unlinked_pair_counterexample:
  "handlers stale_plan = [0, 1]
   \<and> invoke_override (heap stale_plan 0) = invoke_override new_TestHandler
   \<and> invoke_override (heap stale_plan 1) = invoke_override new_TestHandler2
   \<and> execute stale_plan ''Hello'' = Some (Inr (Some ''Hello!''), [0, 1, 2])
   \<and> handlers prepended_plan = [0, 1]
   \<and> invoke_override (heap prepended_plan 0) = invoke_override new_TestHandler
   \<and> invoke_override (heap prepended_plan 1) = invoke_override new_TestHandler2
   \<and> execute prepended_plan ''Hello'' = Some (Inr (Some ''Hello!''), [0])"
  by (simp add: plan_defs stale_plan_def stale_heap_def prepended_plan_def
      removeHandler_def indexOf_arg_def splice_remove_def
      execute_def invoke_def override_body_def PipelineHandler_invoke.simps
      is_undefined_def read_output_def new_ExecutionContext_def)

lemma execute_linked_pair:
  assumes "handlers s = [A, B]"
    and "nextHandler (heap s A) = Some B" and "nextHandler (heap s B) = None"
    and "invoke_override (heap s A) = Some (\<lambda>x. x @ ''!'')"
    and "invoke_override (heap s B) = Some (\<lambda>x. x @ ''?'')"
  shows "execute s ''Hello'' = Some (Inr (Some ''Hello?''), [A, B])"
proof -
  let ?c0 = "new_ExecutionContext ''Hello'' :: (string, string) ExecutionContext"
  let ?c1 = "?c0\<lparr>ctx_output := Some ''Hello!''\<rparr>"
  let ?c2 = "?c0\<lparr>ctx_output := Some ''Hello?''\<rparr>"
  have b: "PipelineHandler_invoke (heap s) B (Ctx ?c2) [A, B] = Some (Inr (), Ctx ?c2, [A, B])"
    using assms(3) by (subst PipelineHandler_invoke.simps) (simp add: is_undefined_Ctx)
  have a: "PipelineHandler_invoke (heap s) A (Ctx ?c1) [A] = Some (Inr (), Ctx ?c2, [A, B])"
    using assms(2,5) b
    by (subst PipelineHandler_invoke.simps)
       (simp add: is_undefined_Ctx override_body_def new_ExecutionContext_def)
  have "invoke (heap s) A (Ctx ?c0) [] = Some (Inr (), Ctx ?c2, [A, B])"
    using assms(4) a by (simp add: invoke_def override_body_def new_ExecutionContext_def)
  with assms(1) show ?thesis
    by (simp add: execute_def read_output_def new_ExecutionContext_def)
qed

lemma two_appended_links:
  "A \<noteq> B \<Longrightarrow>
   handlers (two_appended A B H) = [A, B]
   \<and> heap (two_appended A B H) = H(A := (H A)\<lparr>nextHandler := Some B\<rparr>)"
  by (simp add: two_appended_def appendHandler_def insertHandlerAt_def new_ExecutionPlan_def
      indexOf_def at_def splice_insert_def splice_start_def set_nextHandler_def)

text \<open>
  C6, amended. For a plan containing exactly two handlers in order A then B in which A
  forwards to B and B has no next handler, where A's \<^verbatim>\<open>invoke\<close> sets
  \<^verbatim>\<open>output = input + "!"\<close> and then forwards and B's sets \<^verbatim>\<open>output = input + "?"\<close>
  and then forwards, \<^verbatim>\<open>execute("Hello")\<close> returns \<^verbatim>\<open>"Hello?"\<close>, and each of A and
  B is invoked exactly once, A before B. The plan built on a new plan by
  \<^verbatim>\<open>appendHandler(A)\<close> then \<^verbatim>\<open>appendHandler(B)\<close>, with A and B distinct and B
  constructed without a next handler, is such a plan.
\<close>

theorem execute_two_handlers:
  "(handlers s = [A, B] \<and> nextHandler (heap s A) = Some B \<and> nextHandler (heap s B) = None
      \<and> invoke_override (heap s A) = Some (\<lambda>x. x @ ''!'')
      \<and> invoke_override (heap s B) = Some (\<lambda>x. x @ ''?'')
    \<longrightarrow> execute s ''Hello'' = Some (Inr (Some ''Hello?''), [A, B]))
   \<and> (A \<noteq> B \<and> nextHandler (H B) = None
      \<and> invoke_override (H A) = Some (\<lambda>x. x @ ''!'')
      \<and> invoke_override (H B) = Some (\<lambda>x. x @ ''?'')
    \<longrightarrow> handlers (two_appended A B H) = [A, B]
      \<and> nextHandler (heap (two_appended A B H) A) = Some B
      \<and> nextHandler (heap (two_appended A B H) B) = None
      \<and> execute (two_appended A B H) ''Hello'' = Some (Inr (Some ''Hello?''), [A, B]))"
proof (intro conjI impI)
  assume "handlers s = [A, B] \<and> nextHandler (heap s A) = Some B \<and> nextHandler (heap s B) = None
      \<and> invoke_override (heap s A) = Some (\<lambda>x. x @ ''!'')
      \<and> invoke_override (heap s B) = Some (\<lambda>x. x @ ''?'')"
  then show "execute s ''Hello'' = Some (Inr (Some ''Hello?''), [A, B])"
    using execute_linked_pair [of s A B] by blast
next
  assume h: "A \<noteq> B \<and> nextHandler (H B) = None
      \<and> invoke_override (H A) = Some (\<lambda>x. x @ ''!'')
      \<and> invoke_override (H B) = Some (\<lambda>x. x @ ''?'')"
  then have ne: "A \<noteq> B" by blast
  note links = two_appended_links [OF ne, of H]
  from links show hs: "handlers (two_appended A B H) = [A, B]" by blast
  from links show na: "nextHandler (heap (two_appended A B H) A) = Some B" by simp
  from links h show nb: "nextHandler (heap (two_appended A B H) B) = None" by auto
  from links h have oa: "invoke_override (heap (two_appended A B H) A) = Some (\<lambda>x. x @ ''!'')"
    by simp
  from links h have ob: "invoke_override (heap (two_appended A B H) B) = Some (\<lambda>x. x @ ''?'')"
    by auto
  from execute_linked_pair [OF hs na nb oa ob]
  show "execute (two_appended A B H) ''Hello'' = Some (Inr (Some ''Hello?''), [A, B])" .
qed

theorem execute_two_handlers_witness:
  "(0::nat) \<noteq> 1
   \<and> nextHandler (test_heap 1) = None
   \<and> handlers (two_appended 0 1 test_heap) = [0, 1]
   \<and> nextHandler (heap (two_appended 0 1 test_heap) 0) = Some 1
   \<and> nextHandler (heap (two_appended 0 1 test_heap) 1) = None
   \<and> execute (two_appended 0 1 test_heap) ''Hello'' = Some (Inr (Some ''Hello?''), [0, 1])"
  using execute_two_handlers [of "two_appended 0 1 test_heap" 0 1 test_heap]
  by (simp add: test_heap_def fresh_heap_def new_PipelineHandler_def new_TestHandler_def
      new_TestHandler2_def)

lemma read_output_simps:
  "read_output (Inr (), Ctx c, log) = (Inr (ctx_output c), log)"
  "read_output (Inl err, a, log) = (Inl err, log)"
  by (simp_all add: read_output_def)

text \<open>
  C7. On a plan without handlers \<^verbatim>\<open>execute\<close> and \<^verbatim>\<open>executeAsync\<close> fail with the
  empty-pipeline error, for every input. On a plan with a handler, \<^verbatim>\<open>execute\<close> invokes
  the first handler on a fresh context that holds the input and no output, and returns the
  output that context holds when the call has returned (an error of the call is passed on);
  \<^verbatim>\<open>executeAsync\<close> does the same through \<^verbatim>\<open>invokeAsync\<close>.
\<close>

theorem execute_contract:
  "(handlers s = [] \<longrightarrow>
      execute s inp = Some (Inl PipelineEmpty, []) \<and> executeAsync s inp = Some (Inl PipelineEmpty, []))
   \<and> (handlers s \<noteq> [] \<longrightarrow>
      execute s inp =
        map_option read_output (invoke (heap s) (hd (handlers s)) (Ctx (new_ExecutionContext inp)) [])
      \<and> executeAsync s inp =
        map_option read_output (invokeAsync (heap s) (hd (handlers s)) (Ctx (new_ExecutionContext inp)) []))
   \<and> ctx_input (new_ExecutionContext inp :: ('i, 'o) ExecutionContext) = inp
   \<and> ctx_output (new_ExecutionContext inp :: ('i, 'o) ExecutionContext) = None
   \<and> read_output (Inr (), Ctx (c :: ('i, 'o) ExecutionContext), log) = (Inr (ctx_output c), log)
   \<and> read_output (Inl err, (a :: ('i, 'o) context_arg), log) = (Inl err, log)"
  by (cases "handlers s")
     (simp_all add: execute_def executeAsync_def read_output_simps new_ExecutionContext_def)

theorem execute_contract_witness:
  "handlers (new_ExecutionPlan fresh_heap) = []
   \<and> execute (new_ExecutionPlan fresh_heap) ''Hello'' = Some (Inl PipelineEmpty, [])
   \<and> executeAsync (new_ExecutionPlan fresh_heap) ''Hello'' = Some (Inl PipelineEmpty, [])
   \<and> handlers single_plan \<noteq> []
   \<and> execute single_plan ''Hello'' =
        map_option read_output (invoke (heap single_plan) 0 (Ctx (new_ExecutionContext ''Hello'')) [])
   \<and> execute single_plan ''Hello'' = Some (Inr None, [0])
   \<and> executeAsync single_plan ''Hello'' = Some (Inr None, [0])"
  using execute_contract [of "new_ExecutionPlan fresh_heap" "''Hello''"]
    execute_contract [of single_plan "''Hello''"]
  by (simp add: plan_defs invoke_def invokeAsync_def override_body_def is_undefined_def
      PipelineHandler_invoke.simps PipelineHandler_invokeAsync.simps read_output_def new_ExecutionContext_def)

section \<open>Absent contexts\<close>

text \<open>
  A handler of the base class without a next handler, called with \<^verbatim>\<open>null\<close>: the call
  returns normally, with no error.
\<close>

theorem null_context_counterexample:
  "nextHandler (fresh_heap 0) = None
   \<and> invoke fresh_heap 0 Null [] = Some (Inr (), Null, [0])
   \<and> invokeAsync fresh_heap 0 Null [] = Some (Inr (), Null, [0])"
  by (simp add: plan_defs invoke_def invokeAsync_def override_body_def is_undefined_def
      PipelineHandler_invoke.simps PipelineHandler_invokeAsync.simps)

text \<open>
  C8, amended. For every handler, one without a next handler included, the
  \<^verbatim>\<open>invoke\<close> and \<^verbatim>\<open>invokeAsync\<close> of \<^verbatim>\<open>PipelineHandler\<close> called with an
  \<^verbatim>\<open>undefined\<close> context fail with the invalid-argument error, and so does the call on
  any handler that inherits the method. A \<^verbatim>\<open>null\<close> context is not rejected: the method
  returns normally on a handler without a next handler, and otherwise does what the next
  handler's \<^verbatim>\<open>invoke\<close> (\<^verbatim>\<open>invokeAsync\<close>) does with \<^verbatim>\<open>null\<close>.
\<close>

theorem undefined_context_rejected:
  "PipelineHandler_invoke H h Undefined log = Some (Inl ContextUndefined, Undefined, log)
   \<and> PipelineHandler_invokeAsync H h Undefined log = Some (Inl ContextUndefined, Undefined, log)
   \<and> (invoke_override (H h) = None \<longrightarrow>
        invoke H h Undefined log = Some (Inl ContextUndefined, Undefined, log @ [h]))
   \<and> (invokeAsync_override (H h) = None \<longrightarrow>
        invokeAsync H h Undefined log = Some (Inl ContextUndefined, Undefined, log @ [h]))
   \<and> PipelineHandler_invoke H h Null log =
        (case nextHandler (H h) of
           None \<Rightarrow> Some (Inr (), Null, log)
         | Some n \<Rightarrow> invoke H n Null log)
   \<and> PipelineHandler_invokeAsync H h Null log =
        (case nextHandler (H h) of
           None \<Rightarrow> Some (Inr (), Null, log)
         | Some n \<Rightarrow> invokeAsync H n Null log)
   \<and> (invoke_override (H h) = None \<longrightarrow>
        invoke H h Null log =
          (case nextHandler (H h) of
             None \<Rightarrow> Some (Inr (), Null, log @ [h])
           | Some n \<Rightarrow> invoke H n Null (log @ [h])))
   \<and> (invokeAsync_override (H h) = None \<longrightarrow>
        invokeAsync H h Null log =
          (case nextHandler (H h) of
             None \<Rightarrow> Some (Inr (), Null, log @ [h])
           | Some n \<Rightarrow> invokeAsync H n Null (log @ [h])))"
proof -
  have u: "PipelineHandler_invoke H h Undefined l = Some (Inl ContextUndefined, Undefined, l)"
    "PipelineHandler_invokeAsync H h Undefined l = Some (Inl ContextUndefined, Undefined, l)" for l
    by (simp_all add: PipelineHandler_invoke_unfold PipelineHandler_invokeAsync_unfold is_undefined_def)
  have n: "PipelineHandler_invoke H h Null l =
        (case nextHandler (H h) of None \<Rightarrow> Some (Inr (), Null, l) | Some n \<Rightarrow> invoke H n Null l)"
    "PipelineHandler_invokeAsync H h Null l =
        (case nextHandler (H h) of None \<Rightarrow> Some (Inr (), Null, l) | Some n \<Rightarrow> invokeAsync H n Null l)" for l
    by (simp_all add: PipelineHandler_invoke_unfold [of H h Null]
        PipelineHandler_invokeAsync_unfold [of H h Null] is_undefined_def)
  show ?thesis
    by (simp add: u n invoke_def invokeAsync_def override_body_def)
qed

theorem undefined_context_rejected_witness:
  "invoke_override (fresh_heap 0) = None \<and> invokeAsync_override (fresh_heap 0) = None
   \<and> nextHandler (fresh_heap 0) = None
   \<and> invoke fresh_heap 0 Undefined [] = Some (Inl ContextUndefined, Undefined, [0])
   \<and> invokeAsync fresh_heap 0 Undefined [] = Some (Inl ContextUndefined, Undefined, [0])
   \<and> invoke fresh_heap 0 Null [] = Some (Inr (), Null, [0])
   \<and> invokeAsync fresh_heap 0 Null [] = Some (Inr (), Null, [0])
   \<and> nextHandler (heap (appended_plan fresh_heap) 0) = Some 1
   \<and> invoke (heap (appended_plan fresh_heap)) 0 Null [] = Some (Inr (), Null, [0, 1])
   \<and> invokeAsync (heap (appended_plan fresh_heap)) 0 Null [] = Some (Inr (), Null, [0, 1])"
proof -
  have f: "nextHandler (fresh_heap 0) = None" "invoke_override (fresh_heap 0) = None"
    "invokeAsync_override (fresh_heap 0) = None"
    by (simp_all add: fresh_heap_def new_PipelineHandler_def)
  have l0: "nextHandler (heap (appended_plan fresh_heap) 0) = Some 1"
    "invoke_override (heap (appended_plan fresh_heap) 0) = None"
    "invokeAsync_override (heap (appended_plan fresh_heap) 0) = None"
    by (simp_all add: plan_defs)
  have l1: "nextHandler (heap (appended_plan fresh_heap) 1) = None"
    "invoke_override (heap (appended_plan fresh_heap) 1) = None"
    "invokeAsync_override (heap (appended_plan fresh_heap) 1) = None"
    by (simp_all add: plan_defs)
  from undefined_context_rejected [of fresh_heap 0 "[]"]
    undefined_context_rejected [of "heap (appended_plan fresh_heap)" 0 "[]"]
    undefined_context_rejected [of "heap (appended_plan fresh_heap)" 1 "[0]"]
  show ?thesis
    by (simp add: f l0 l1 del: One_nat_def)
qed

section \<open>Insertion and the successor link\<close>

text \<open>
  C1, on the plan built by appending objects 0 and 1: \<^verbatim>\<open>insertHandlerAt(0, h)\<close> with
  \<open>h\<close> object 2. Position 0 held object 0 before the call, the resulting sequence is
  2, 0, 1, and the inserted handler's next reference is object 1, the handler that was at
  position 1, not the handler that was at position 0.
\<close>

theorem insert_successor_skips:
  "at (handlers (appended_plan fresh_heap)) 0 = Some 0
   \<and> fst (insertHandlerAt 0 (Some 2) (appended_plan fresh_heap)) = Inr ()
   \<and> handlers (snd (insertHandlerAt 0 (Some 2) (appended_plan fresh_heap))) = [2, 0, 1]
   \<and> nextHandler (heap (snd (insertHandlerAt 0 (Some 2) (appended_plan fresh_heap))) 2) = Some 1"
  by (simp add: plan_defs)

text \<open>
  C2, on the plan holding object 0 alone: \<^verbatim>\<open>insertHandlerAt(0, h)\<close> with \<open>h\<close>
  object 1 succeeds and the count grows by one, the sequence is 1, 0, but the inserted
  handler has no next reference although object 0 now follows it; executing the plan enters
  object 1 only.
\<close>

theorem insert_before_last_unlinked:
  "handlers single_plan = [0]
   \<and> fst (insertHandlerAt 0 (Some 1) single_plan) = Inr ()
   \<and> handlers (snd (insertHandlerAt 0 (Some 1) single_plan)) = [1, 0]
   \<and> handlerCount (snd (insertHandlerAt 0 (Some 1) single_plan)) = handlerCount single_plan + 1
   \<and> nextHandler (heap (snd (insertHandlerAt 0 (Some 1) single_plan)) 1) = None
   \<and> execute (snd (insertHandlerAt 0 (Some 1) single_plan)) ''Hello'' = Some (Inr None, [1])"
  by (simp add: plan_defs handlerCount_def execute_def invoke_def override_body_def
      PipelineHandler_invoke.simps is_undefined_def read_output_def new_ExecutionContext_def)

section \<open>Rejected mutations\<close>

lemma insertHandlerAt_rejected:
  "fst (insertHandlerAt i a s) = Inl err \<Longrightarrow> snd (insertHandlerAt i a s) = s"
  by (auto simp: insertHandlerAt_def Let_def split: if_splits option.splits sum.splits)

lemma appendHandler_rejected:
  "fst (appendHandler a s) = Inl err \<Longrightarrow> snd (appendHandler a s) = s"
  by (cases a) (simp_all add: appendHandler_def insertHandlerAt_rejected)

lemma prependHandler_rejected:
  "fst (prependHandler a s) = Inl err \<Longrightarrow> snd (prependHandler a s) = s"
  by (cases a) (simp_all add: prependHandler_def insertHandlerAt_rejected)

lemma addHandlerAfter_rejected:
  "fst (addHandlerAfter a b s) = Inl err \<Longrightarrow> snd (addHandlerAfter a b s) = s"
  by (cases a; cases b)
     (auto simp: addHandlerAfter_def Let_def split: if_splits intro: insertHandlerAt_rejected)

lemma addHandlerBefore_rejected:
  "fst (addHandlerBefore a b s) = Inl err \<Longrightarrow> snd (addHandlerBefore a b s) = s"
  by (cases a; cases b)
     (auto simp: addHandlerBefore_def Let_def split: if_splits intro: insertHandlerAt_rejected)

lemma removeHandlerAt_rejected:
  "fst (removeHandlerAt i s) = Inl err \<Longrightarrow> snd (removeHandlerAt i s) = s"
  by (auto simp: removeHandlerAt_def split: if_splits)

lemma removeHandler_rejected:
  "fst (removeHandler a s) = Inl err \<Longrightarrow> snd (removeHandler a s) = s"
  by (auto simp: removeHandler_def Let_def split: if_splits)

lemma insertHandlerAt_member:
  "h \<in> set (handlers s) \<Longrightarrow>
   insertHandlerAt i (Some h) s =
     (Inl (if i < 0 \<or> int (handlerCount s) < i then IndexOutOfRange else DuplicateHandler), s)"
  by (simp add: insertHandlerAt_def handlerCount_def indexOf_member)

lemma addHandlerAfter_member:
  "h \<in> set (handlers s) \<Longrightarrow>
   addHandlerAfter e (Some h) s =
     (Inl (case e of None \<Rightarrow> HandlerNull
           | Some x \<Rightarrow> if x \<in> set (handlers s) then DuplicateHandler else HandlerNotFound), s)"
proof (cases e)
  case None
  then show ?thesis by (simp add: addHandlerAfter_def)
next
  case (Some x)
  assume h: "h \<in> set (handlers s)"
  show ?thesis
  proof (cases "x \<in> set (handlers s)")
    case True
    from indexOf_range [OF True] indexOf_member [of "handlers s" x] True h Some
    show ?thesis
      by (simp add: addHandlerAfter_def Let_def insertHandlerAt_member handlerCount_def)
  next
    case False
    with indexOf_member [of "handlers s" x] Some show ?thesis
      by (simp add: addHandlerAfter_def Let_def)
  qed
qed

lemma addHandlerBefore_member:
  "h \<in> set (handlers s) \<Longrightarrow>
   addHandlerBefore e (Some h) s =
     (Inl (case e of None \<Rightarrow> HandlerNull
           | Some x \<Rightarrow> if x \<in> set (handlers s) then DuplicateHandler else HandlerNotFound), s)"
proof (cases e)
  case None
  then show ?thesis by (simp add: addHandlerBefore_def)
next
  case (Some x)
  assume h: "h \<in> set (handlers s)"
  show ?thesis
  proof (cases "x \<in> set (handlers s)")
    case True
    from indexOf_range [OF True] indexOf_member [of "handlers s" x] True h Some
    show ?thesis
      by (simp add: addHandlerBefore_def Let_def insertHandlerAt_member handlerCount_def)
  next
    case False
    with indexOf_member [of "handlers s" x] Some show ?thesis
      by (simp add: addHandlerBefore_def Let_def)
  qed
qed

text \<open>
  Object 0 is a member of the plan, and inserting it again at an index outside the sequence
  fails with the index error, adding it after a handler that is not a member with the
  not-found error: neither is the duplicate-membership error.
\<close>

theorem duplicate_index_counterexample:
  "0 \<in> set (handlers single_plan)
   \<and> fst (insertHandlerAt 5 (Some 0) single_plan) = Inl IndexOutOfRange
   \<and> fst (addHandlerAfter (Some 7) (Some 0) single_plan) = Inl HandlerNotFound"
  by (simp add: plan_defs addHandlerAfter_def)

text \<open>
  C3, amended. Inserting a handler that is already a member always fails and leaves the
  state as it was: with the duplicate-membership error through \<^verbatim>\<open>appendHandler\<close> and
  \<^verbatim>\<open>prependHandler\<close>, through \<^verbatim>\<open>insertHandlerAt\<close> when the index is in
  \<open>[0, N]\<close> (with the index error otherwise), and through \<^verbatim>\<open>addHandlerAfter\<close> and
  \<^verbatim>\<open>addHandlerBefore\<close> when the reference handler is a member (with the null-handler
  error when it is absent, the not-found error when it is not a member). Every structural
  mutation that fails, for whichever error, leaves the sequence and every handler's next
  reference as they were.
\<close>

theorem duplicate_rejected:
  "(h \<in> set (handlers s) \<longrightarrow>
      insertHandlerAt i (Some h) s =
        (Inl (if i < 0 \<or> int (handlerCount s) < i then IndexOutOfRange else DuplicateHandler), s)
    \<and> appendHandler (Some h) s = (Inl DuplicateHandler, s)
    \<and> prependHandler (Some h) s = (Inl DuplicateHandler, s)
    \<and> addHandlerAfter e (Some h) s =
        (Inl (case e of None \<Rightarrow> HandlerNull
              | Some x \<Rightarrow> if x \<in> set (handlers s) then DuplicateHandler else HandlerNotFound), s)
    \<and> addHandlerBefore e (Some h) s =
        (Inl (case e of None \<Rightarrow> HandlerNull
              | Some x \<Rightarrow> if x \<in> set (handlers s) then DuplicateHandler else HandlerNotFound), s))
   \<and> (fst (insertHandlerAt i a s) = Inl err \<longrightarrow> snd (insertHandlerAt i a s) = s)
   \<and> (fst (appendHandler a s) = Inl err \<longrightarrow> snd (appendHandler a s) = s)
   \<and> (fst (prependHandler a s) = Inl err \<longrightarrow> snd (prependHandler a s) = s)
   \<and> (fst (addHandlerAfter e a s) = Inl err \<longrightarrow> snd (addHandlerAfter e a s) = s)
   \<and> (fst (addHandlerBefore e a s) = Inl err \<longrightarrow> snd (addHandlerBefore e a s) = s)
   \<and> (fst (removeHandlerAt i s) = Inl err \<longrightarrow> snd (removeHandlerAt i s) = s)
   \<and> (fst (removeHandler a s) = Inl err \<longrightarrow> snd (removeHandler a s) = s)"
proof -
  have dup: "h \<in> set (handlers s) \<Longrightarrow> appendHandler (Some h) s = (Inl DuplicateHandler, s)"
    "h \<in> set (handlers s) \<Longrightarrow> prependHandler (Some h) s = (Inl DuplicateHandler, s)"
    by (simp_all add: appendHandler_def prependHandler_def insertHandlerAt_member handlerCount_def)
  show ?thesis
    using dup insertHandlerAt_member [of h s i] addHandlerAfter_member [of h s e]
      addHandlerBefore_member [of h s e]
      insertHandlerAt_rejected [of i a s err] appendHandler_rejected [of a s err]
      prependHandler_rejected [of a s err] addHandlerAfter_rejected [of e a s err]
      addHandlerBefore_rejected [of e a s err] removeHandlerAt_rejected [of i s err]
      removeHandler_rejected [of a s err]
    by blast
qed

theorem duplicate_rejected_witness:
  "0 \<in> set (handlers single_plan)
   \<and> insertHandlerAt 1 (Some 0) single_plan = (Inl DuplicateHandler, single_plan)
   \<and> appendHandler (Some 0) single_plan = (Inl DuplicateHandler, single_plan)
   \<and> prependHandler (Some 0) single_plan = (Inl DuplicateHandler, single_plan)
   \<and> addHandlerAfter (Some 0) (Some 0) single_plan = (Inl DuplicateHandler, single_plan)
   \<and> addHandlerBefore (Some 0) (Some 0) single_plan = (Inl DuplicateHandler, single_plan)
   \<and> fst (removeHandlerAt 1 single_plan) = Inl IndexOutOfRange
   \<and> snd (removeHandlerAt 1 single_plan) = single_plan
   \<and> fst (removeHandler (Some 1) single_plan) = Inl HandlerNotFound
   \<and> snd (removeHandler (Some 1) single_plan) = single_plan"
proof -
  have mem: "0 \<in> set (handlers single_plan)" and len: "handlerCount single_plan = 1"
    by (simp_all add: plan_defs handlerCount_def)
  have r1: "fst (removeHandlerAt 1 single_plan) = Inl IndexOutOfRange"
    using len by (simp add: removeHandlerAt_def handlerCount_def)
  have r2: "fst (removeHandler (Some 1) single_plan) = Inl HandlerNotFound"
    by (simp add: removeHandler_def indexOf_arg_def plan_defs)
  from duplicate_rejected [of 0 single_plan 1 "Some 0" "Some 1" IndexOutOfRange]
    duplicate_rejected [of 0 single_plan 1 "Some 0" "Some 1" HandlerNotFound]
    duplicate_rejected [of 0 single_plan 1 "Some 0" "Some 0" DuplicateHandler]
    mem len r1 r2
  show ?thesis by simp
qed

section \<open>Adding after a handler that is not a member\<close>

text \<open>
  On the empty plan object 0 is not a member, and \<^verbatim>\<open>addHandlerAfter\<close> of it with an
  absent new handler fails with the error for the new handler, not with not-found.
\<close>

theorem absent_new_handler_counterexample:
  "0 \<notin> set (handlers (new_ExecutionPlan fresh_heap))
   \<and> fst (addHandlerAfter (Some 0) None (new_ExecutionPlan fresh_heap)) = Inl NewHandlerNull"
  by (simp add: addHandlerAfter_def new_ExecutionPlan_def)

text \<open>
  C5, amended. \<^verbatim>\<open>addHandlerAfter(existing, new)\<close> where \<open>existing\<close> is not a member
  always fails, leaving the state unchanged: with the not-found error when \<open>new\<close> is
  present, whether or not it could be inserted; with the null-handler error for the new
  handler when \<open>new\<close> is absent, and with the null-handler error when \<open>existing\<close> itself
  is absent.
\<close>

theorem addHandlerAfter_not_member:
  "addHandlerAfter None new s = (Inl HandlerNull, s)
   \<and> (e \<notin> set (handlers s) \<longrightarrow>
        addHandlerAfter (Some e) None s = (Inl NewHandlerNull, s)
        \<and> addHandlerAfter (Some e) (Some n) s = (Inl HandlerNotFound, s))"
  using indexOf_member [of "handlers s" e]
  by (simp add: addHandlerAfter_def Let_def)

theorem addHandlerAfter_not_member_witness:
  "1 \<notin> set (handlers single_plan)
   \<and> addHandlerAfter (Some 1) None single_plan = (Inl NewHandlerNull, single_plan)
   \<and> addHandlerAfter (Some 1) (Some 2) single_plan = (Inl HandlerNotFound, single_plan)
   \<and> addHandlerAfter (Some 1) (Some 0) single_plan = (Inl HandlerNotFound, single_plan)"
proof -
  have "1 \<notin> set (handlers single_plan)" by (simp add: plan_defs)
  with addHandlerAfter_not_member [of None single_plan 1 2]
    addHandlerAfter_not_member [of None single_plan 1 0]
  show ?thesis by simp
qed

section \<open>Removal and clearing\<close>

lemma splice_remove_in_range:
  "0 \<le> i \<Longrightarrow> i < int (length xs) \<Longrightarrow>
   splice_remove xs i = take (nat i) xs @ drop (Suc (nat i)) xs"
  by (auto simp: splice_remove_def splice_start_def Let_def min_def)

lemma splice_remove_length:
  "0 \<le> i \<Longrightarrow> i < int (length xs) \<Longrightarrow> length (splice_remove xs i) + 1 = length xs"
  by (auto simp: splice_remove_def splice_start_def Let_def min_def)

text \<open>
  C9. \<^verbatim>\<open>removeHandlerAt(index)\<close> with \<open>0 \<le> index < N\<close>, \<^verbatim>\<open>removeHandler(handler)\<close>
  with a member, and \<^verbatim>\<open>clearHandlers()\<close> succeed and leave the object store, hence
  every handler's next reference, unchanged; a removal makes the count one less and keeps
  the handlers before and after the removed position in their order.
\<close>

theorem removal_frame:
  "(0 \<le> i \<and> i < int (handlerCount s) \<longrightarrow>
      fst (removeHandlerAt i s) = Inr ()
      \<and> heap (snd (removeHandlerAt i s)) = heap s
      \<and> handlerCount (snd (removeHandlerAt i s)) + 1 = handlerCount s
      \<and> handlers (snd (removeHandlerAt i s)) = take (nat i) (handlers s) @ drop (Suc (nat i)) (handlers s))
   \<and> (h \<in> set (handlers s) \<longrightarrow>
      fst (removeHandler (Some h) s) = Inr ()
      \<and> heap (snd (removeHandler (Some h) s)) = heap s
      \<and> handlerCount (snd (removeHandler (Some h) s)) + 1 = handlerCount s
      \<and> handlers s ! nat (indexOf (handlers s) h) = h
      \<and> handlers (snd (removeHandler (Some h) s)) =
          take (nat (indexOf (handlers s) h)) (handlers s)
          @ drop (Suc (nat (indexOf (handlers s) h))) (handlers s))
   \<and> fst (clearHandlers s) = Inr ()
   \<and> heap (snd (clearHandlers s)) = heap s
   \<and> handlers (snd (clearHandlers s)) = []"
proof -
  have at_part: "fst (removeHandlerAt i s) = Inr ()
      \<and> heap (snd (removeHandlerAt i s)) = heap s
      \<and> handlerCount (snd (removeHandlerAt i s)) + 1 = handlerCount s
      \<and> handlers (snd (removeHandlerAt i s)) = take (nat i) (handlers s) @ drop (Suc (nat i)) (handlers s)"
    if "0 \<le> i \<and> i < int (handlerCount s)"
    using that splice_remove_in_range [of i "handlers s"] splice_remove_length [of i "handlers s"]
    by (auto simp: removeHandlerAt_def handlerCount_def)
  have mem_part: "fst (removeHandler (Some h) s) = Inr ()
      \<and> heap (snd (removeHandler (Some h) s)) = heap s
      \<and> handlerCount (snd (removeHandler (Some h) s)) + 1 = handlerCount s
      \<and> handlers s ! nat (indexOf (handlers s) h) = h
      \<and> handlers (snd (removeHandler (Some h) s)) =
          take (nat (indexOf (handlers s) h)) (handlers s)
          @ drop (Suc (nat (indexOf (handlers s) h))) (handlers s)"
    if "h \<in> set (handlers s)"
  proof -
    from indexOf_range [OF that]
    have rng: "0 \<le> indexOf (handlers s) h" "indexOf (handlers s) h < int (length (handlers s))"
      and nth: "handlers s ! nat (indexOf (handlers s) h) = h"
      by simp_all
    from rng have "indexOf (handlers s) h \<noteq> - 1" by simp
    with rng nth splice_remove_in_range [OF rng] splice_remove_length [OF rng] show ?thesis
      by (auto simp: removeHandler_def indexOf_arg_def Let_def handlerCount_def)
  qed
  from at_part mem_part show ?thesis
    by (simp add: clearHandlers_def)
qed

theorem removal_frame_witness:
  "0 \<le> (0::int) \<and> (0::int) < int (handlerCount (appended_plan fresh_heap))
   \<and> 1 \<in> set (handlers (appended_plan fresh_heap))
   \<and> handlers (snd (removeHandlerAt 0 (appended_plan fresh_heap))) = [1]
   \<and> heap (snd (removeHandlerAt 0 (appended_plan fresh_heap))) = heap (appended_plan fresh_heap)
   \<and> handlers (snd (removeHandler (Some 1) (appended_plan fresh_heap))) = [0]
   \<and> heap (snd (removeHandler (Some 1) (appended_plan fresh_heap))) = heap (appended_plan fresh_heap)
   \<and> nextHandler (heap (snd (removeHandler (Some 1) (appended_plan fresh_heap))) 0) = Some 1"
proof -
  have hs: "handlers (appended_plan fresh_heap) = [0, 1]"
    and nx: "nextHandler (heap (appended_plan fresh_heap) 0) = Some 1"
    by (simp_all add: plan_defs)
  have ix: "indexOf [0, 1 :: nat] 1 = 1" by (simp add: indexOf_def)
  from removal_frame [of 0 "appended_plan fresh_heap" 1] hs nx ix
  show ?thesis by (simp add: handlerCount_def)
qed

end
